theory Spec2Isabelle
  imports Main "HOL-Library.Word"
begin

unbundle bit_operations_syntax

section \<open>Machine model\<close>

text \<open>
  The allocator of \<^verbatim>\<open>pcache-malloc\<close> is modelled for an LP64 target: \<^verbatim>\<open>size_t\<close> and
  pointers are 64-bit words, so every length the code computes wraps modulo \<open>2 ^ 64\<close> as
  it does in C, and \<^verbatim>\<open>int\<close> is 32 bits wide.
\<close>

type_synonym size_t = "64 word"
type_synonym addr = "64 word"
type_synonym byte = "8 word"

text \<open>\<open>in_range base len x\<close>: the address \<open>x\<close> is one of the \<open>len\<close> bytes from \<open>base\<close> on.\<close>

definition in_range :: "addr \<Rightarrow> size_t \<Rightarrow> addr \<Rightarrow> bool" where
  "in_range base len x \<longleftrightarrow> x - base < len"

section \<open>The address space and the three system calls\<close>

text \<open>
  \<^verbatim>\<open>mmap\<close>, \<^verbatim>\<open>mprotect\<close> and \<^verbatim>\<open>munmap\<close> belong to the operating system. The address
  space records, byte by byte, whether an address is mapped and with which protection.
  What the kernel decides on its own is an input of the model: the address \<^verbatim>\<open>mmap\<close>
  answers (or \<^verbatim>\<open>MAP_FAILED\<close>) and the result of \<^verbatim>\<open>mprotect\<close>.

  The kernel works on whole pages. A call given the \<open>len\<close> bytes from \<open>a\<close> on acts on
  every page that holds one of them: the range starts at \<open>a\<close> rounded down to a page
  boundary and its length, counted from there, is rounded up to a multiple of the page
  size. So \<^verbatim>\<open>mmap\<close> of 8292 bytes with pages of 4096 bytes maps 12288 bytes, and
  \<^verbatim>\<open>mprotect\<close> of 100 bytes changes a whole page.

  Following the manual pages, \<^verbatim>\<open>mmap\<close> and \<^verbatim>\<open>munmap\<close> refuse a length of 0 (\<^verbatim>\<open>EINVAL\<close>),
  and \<^verbatim>\<open>mprotect\<close> refuses (\<^verbatim>\<open>ENOMEM\<close>) a range that leaves the address space or holds
  an unmapped address. A refused call changes nothing. The refusal of an address that is
  not a multiple of the page size is not modelled: the addresses the code passes are
  the one \<^verbatim>\<open>mmap\<close> answered and that one plus a page.
\<close>

datatype prot = PROT_NONE | PROT_READ_WRITE

type_synonym address_space = "addr \<Rightarrow> prot option"

definition MAP_FAILED :: addr where
  "MAP_FAILED = - 1"

record kernel =
  mmap_ret :: addr
  mprotect_ret :: int

text \<open>\<open>a\<close> rounded down to a multiple of the page size.\<close>

definition page_floor :: "size_t \<Rightarrow> addr \<Rightarrow> addr" where
  "page_floor pageSize a = a - a mod pageSize"

text \<open>\<open>n\<close> rounded up to a multiple of the page size \<open>P\<close>.\<close>

definition page_ceil :: "nat \<Rightarrow> nat \<Rightarrow> nat" where
  "page_ceil P n = (if P = 0 then n else ((n + P - 1) div P) * P)"

text \<open>
  \<open>in_pages pageSize a len x\<close>: the address \<open>x\<close> lies in a page that holds one of the
  \<open>len\<close> bytes from \<open>a\<close> on.
\<close>

definition in_pages :: "size_t \<Rightarrow> addr \<Rightarrow> size_t \<Rightarrow> addr \<Rightarrow> bool" where
  "in_pages pageSize a len x \<longleftrightarrow>
     len \<noteq> 0 \<and>
     unat (x - page_floor pageSize a)
       < page_ceil (unat pageSize) (unat (a mod pageSize) + unat len)"

definition range_mapped :: "address_space \<Rightarrow> addr \<Rightarrow> size_t \<Rightarrow> bool" where
  "range_mapped vm a len \<longleftrightarrow>
     unat a + unat len \<le> 2 ^ 64 \<and>
     list_all (\<lambda>i. vm (a + word_of_nat i) \<noteq> None) [0..<unat len]"

definition sys_mmap ::
  "size_t \<Rightarrow> kernel \<Rightarrow> size_t \<Rightarrow> prot \<Rightarrow> address_space \<Rightarrow> addr \<times> address_space" where
  "sys_mmap pageSize k len pr vm =
     (if len = 0 \<or> mmap_ret k = MAP_FAILED then (MAP_FAILED, vm)
      else (mmap_ret k,
            \<lambda>x. if in_pages pageSize (mmap_ret k) len x then Some pr else vm x))"

definition sys_mprotect ::
  "size_t \<Rightarrow> kernel \<Rightarrow> addr \<Rightarrow> size_t \<Rightarrow> prot \<Rightarrow> address_space \<Rightarrow> int \<times> address_space" where
  "sys_mprotect pageSize k a len pr vm =
     (if mprotect_ret k \<noteq> 0 \<or> \<not> range_mapped vm a len then (- 1, vm)
      else (0, \<lambda>x. if in_pages pageSize a len x then Some pr else vm x))"

definition sys_munmap ::
  "size_t \<Rightarrow> addr \<Rightarrow> size_t \<Rightarrow> address_space \<Rightarrow> int \<times> address_space" where
  "sys_munmap pageSize a len vm =
     (if len = 0 then (- 1, vm)
      else (0, \<lambda>x. if in_pages pageSize a len x then None else vm x))"

section \<open>The guarded arena: \<^verbatim>\<open>mmap_impl\<close> and \<^verbatim>\<open>munmap_impl\<close>\<close>

text \<open>
  \<^verbatim>\<open>mmap_impl\<close> takes the page size (\<^verbatim>\<open>getpagesize()\<close>, the size of the kernel's
  pages) and the kernel's answers as parameters. The two \<^verbatim>\<open>prctl\<close> calls that name the
  regions on Android do not touch the address space and are left out. The label
  \<^verbatim>\<open>failure\<close> is the last two branches: the mapping is released only when \<^verbatim>\<open>mmap\<close> had
  succeeded, and the result of that \<^verbatim>\<open>munmap\<close> is dropped, as in the source.
\<close>

definition mmap_impl ::
  "size_t \<Rightarrow> kernel \<Rightarrow> size_t \<Rightarrow> address_space \<Rightarrow> addr \<times> address_space" where
  "mmap_impl pageSize k sz vm =
     (let (base, vm1) = sys_mmap pageSize k (sz + pageSize * 2) PROT_NONE vm in
      if base = MAP_FAILED then (MAP_FAILED, vm1)
      else
        let (rc, vm2) = sys_mprotect pageSize k (base + pageSize) sz PROT_READ_WRITE vm1 in
        if rc \<noteq> 0
        then (MAP_FAILED, snd (sys_munmap pageSize base (sz + pageSize * 2) vm2))
        else (base + pageSize, vm2))"


section \<open>Memory, faults and the size header\<close>

text \<open>
  The state the four entry points work on: the allocator space \<^verbatim>\<open>pcache_msp\<close> (opaque,
  of type \<open>'m\<close>), the bytes of memory, and the trace of the \<^verbatim>\<open>size_t\<close> loads and
  stores the wrapper itself performs through a pointer. Dereferencing the null pointer
  is the fault \<open>NullDereference\<close>: the process does not go on.
\<close>

datatype fault = NullDereference

datatype access = Load addr | Store addr

record 'm pcache_state =
  pcache_msp :: 'm
  bytes :: "addr \<Rightarrow> byte"
  accesses :: "access list"

text \<open>A \<^verbatim>\<open>size_t\<close> in memory: eight bytes, least significant first.\<close>

fun le_bytes :: "nat \<Rightarrow> size_t \<Rightarrow> byte list" where
  "le_bytes 0 v = []"
| "le_bytes (Suc n) v = ucast v # le_bytes n (drop_bit 8 v)"

fun le_word :: "byte list \<Rightarrow> size_t" where
  "le_word [] = 0"
| "le_word (b # bs) = ucast b OR push_bit 8 (le_word bs)"

definition sizeof_size_t :: size_t where
  "sizeof_size_t = 8"

text \<open>\<^verbatim>\<open>*(size_t *) p = v\<close>\<close>

definition store_size_t :: "addr \<Rightarrow> size_t \<Rightarrow> 'm pcache_state \<Rightarrow> fault + 'm pcache_state" where
  "store_size_t p v s =
     (if p = 0 then Inl NullDereference
      else Inr (s\<lparr>bytes := (\<lambda>x. if in_range p sizeof_size_t x
                                 then le_bytes 8 v ! unat (x - p) else bytes s x),
                 accesses := accesses s @ [Store p]\<rparr>))"

text \<open>\<^verbatim>\<open>*(size_t *) p\<close>\<close>

definition load_size_t :: "addr \<Rightarrow> 'm pcache_state \<Rightarrow> fault + (size_t \<times> 'm pcache_state)" where
  "load_size_t p s =
     (if p = 0 then Inl NullDereference
      else Inr (le_word (map (\<lambda>i. bytes s (p + word_of_nat i)) [0..<8]),
                s\<lparr>accesses := accesses s @ [Load p]\<rparr>))"

text \<open>\<^verbatim>\<open>memset(p, c, n)\<close>\<close>

definition memset :: "addr \<Rightarrow> byte \<Rightarrow> size_t \<Rightarrow> (addr \<Rightarrow> byte) \<Rightarrow> (addr \<Rightarrow> byte)" where
  "memset p c n mem = (\<lambda>x. if in_range p n x then c else mem x)"

section \<open>The allocator space\<close>

text \<open>
  \<^verbatim>\<open>mspace_malloc\<close> and \<^verbatim>\<open>mspace_free\<close> are dlmalloc's and are not among the sources;
  they are parameters of the model. \<^verbatim>\<open>mspace_malloc\<close> answers the base of a block or the
  null pointer, and the new allocator state.
\<close>

record 'm mspace_ops =
  mspace_malloc :: "'m \<Rightarrow> size_t \<Rightarrow> addr \<times> 'm"
  mspace_free :: "'m \<Rightarrow> addr \<Rightarrow> 'm"

text \<open>
  Modelled from the spec: \<^verbatim>\<open>mspace_calloc\<close> (dlmalloc, not among the sources). The spec
  says of it that "the underlying call zero-fills the full \<^verbatim>\<open>size + header_size\<close>
  block", and that it answers the failure sentinel when the request cannot be satisfied:
  it allocates \<open>n * elem_size\<close> bytes as \<^verbatim>\<open>mspace_malloc\<close> does and, when that
  succeeds, sets every byte of the block to zero.
\<close>

definition mspace_calloc ::
  "'m mspace_ops \<Rightarrow> size_t \<Rightarrow> size_t \<Rightarrow> 'm pcache_state \<Rightarrow> addr \<times> 'm pcache_state" where
  "mspace_calloc ops n elem_size s =
     (let (p, m) = mspace_malloc ops (pcache_msp s) (n * elem_size) in
      if p = 0 then (p, s\<lparr>pcache_msp := m\<rparr>)
      else (p, s\<lparr>pcache_msp := m, bytes := memset p 0 (n * elem_size) (bytes s)\<rparr>))"

section \<open>The public interface\<close>

text \<open>\<^verbatim>\<open>#define ROUND8(x) (((x)+7)&~7)\<close>\<close>

definition ROUND8 :: "size_t \<Rightarrow> size_t" where
  "ROUND8 x = (x + 7) AND NOT 7"

definition pcache_malloc ::
  "'m mspace_ops \<Rightarrow> size_t \<Rightarrow> 'm pcache_state \<Rightarrow> fault + (addr \<times> 'm pcache_state)" where
  "pcache_malloc ops sz s =
     (let padding = ROUND8 sizeof_size_t;
          (ptr, m) = mspace_malloc ops (pcache_msp s) (sz + padding) in
      case store_size_t ptr (sz + padding) (s\<lparr>pcache_msp := m\<rparr>) of
        Inl f \<Rightarrow> Inl f
      | Inr s' \<Rightarrow> Inr (ptr + padding, s'))"

definition pcache_malloc_zero ::
  "'m mspace_ops \<Rightarrow> size_t \<Rightarrow> 'm pcache_state \<Rightarrow> fault + (addr \<times> 'm pcache_state)" where
  "pcache_malloc_zero ops sz s =
     (let padding = ROUND8 sizeof_size_t;
          (ptr, s1) = mspace_calloc ops (sz + padding) 1 s in
      case store_size_t ptr (sz + padding) s1 of
        Inl f \<Rightarrow> Inl f
      | Inr s' \<Rightarrow> Inr (ptr + padding, s'))"

definition pcache_free :: "'m mspace_ops \<Rightarrow> addr \<Rightarrow> 'm pcache_state \<Rightarrow> 'm pcache_state" where
  "pcache_free ops p s =
     (if p = 0 then s
      else
        let padding = ROUND8 sizeof_size_t in
        s\<lparr>pcache_msp := mspace_free ops (pcache_msp s) (p - padding)\<rparr>)"

text \<open>The result is a C \<^verbatim>\<open>int\<close>: the stored \<^verbatim>\<open>size_t\<close> cut to 32 bits and read as signed.\<close>

definition pcache_memsize :: "addr \<Rightarrow> 'm pcache_state \<Rightarrow> fault + (int \<times> 'm pcache_state)" where
  "pcache_memsize p s =
     (if p = 0 then Inr (0, s)
      else
        let padding = ROUND8 sizeof_size_t in
        case load_size_t (p - padding) s of
          Inl f \<Rightarrow> Inl f
        | Inr (v, s') \<Rightarrow> Inr (sint (ucast v :: 32 word), s'))"

section \<open>Scenarios\<close>

text \<open>
  The testable properties of the specification chain two entry points: allocate and ask
  for the size, allocate zeroed and read a byte of the block, allocate and free.
\<close>

definition memsize_after_malloc :: "'m mspace_ops \<Rightarrow> size_t \<Rightarrow> 'm pcache_state \<Rightarrow> fault + int" where
  "memsize_after_malloc ops sz s =
     (case pcache_malloc ops sz s of
        Inl f \<Rightarrow> Inl f
      | Inr (p, s') \<Rightarrow> map_sum id fst (pcache_memsize p s'))"

definition byte_after_malloc_zero ::
  "'m mspace_ops \<Rightarrow> size_t \<Rightarrow> 'm pcache_state \<Rightarrow> size_t \<Rightarrow> fault + byte" where
  "byte_after_malloc_zero ops sz s i =
     (case pcache_malloc_zero ops sz s of
        Inl f \<Rightarrow> Inl f
      | Inr (p, s') \<Rightarrow> Inr (bytes s' (p + i)))"

definition accesses_of_free_after_malloc ::
  "'m mspace_ops \<Rightarrow> size_t \<Rightarrow> 'm pcache_state \<Rightarrow> fault + access list" where
  "accesses_of_free_after_malloc ops sz s =
     (case pcache_malloc ops sz s of
        Inl f \<Rightarrow> Inl f
      | Inr (p, s') \<Rightarrow> Inr (drop (length (accesses s')) (accesses (pcache_free ops p s'))))"

text \<open>
  A stand-in for the allocator space, to run the wrapper on concrete inputs. Its state
  is the next free address and the list of the bases given back so far: blocks are
  handed out one after the other up to \<open>limit\<close>, the null pointer once a request no
  longer fits, and a freed base is only recorded.
\<close>

definition bump_ops :: "addr \<Rightarrow> (addr \<times> addr list) mspace_ops" where
  "bump_ops limit =
     \<lparr>mspace_malloc = (\<lambda>(next, freed) n.
         if unat next + unat n \<le> unat limit then (next, (next + n, freed))
         else (0, (next, freed))),
      mspace_free = (\<lambda>(next, freed) p. (next, freed @ [p]))\<rparr>"

definition fresh_state :: "addr \<Rightarrow> byte \<Rightarrow> (addr \<times> addr list) pcache_state" where
  "fresh_state next c = \<lparr>pcache_msp = (next, []), bytes = (\<lambda>x. c), accesses = []\<rparr>"

section \<open>Ranges of addresses\<close>

lemma unat_add_le64: "unat (a + b :: 64 word) \<le> unat a + unat b"
  by (simp add: unat_word_ariths)

lemma in_range_iff_offset:
  "in_range a len x \<longleftrightarrow> (\<exists>i<unat len. x = a + word_of_nat i)"
proof
  assume "in_range a len x"
  then have "unat (x - a) < unat len" by (simp add: in_range_def word_less_nat_alt)
  moreover have "x = a + word_of_nat (unat (x - a))" by simp
  ultimately show "\<exists>i<unat len. x = a + word_of_nat i" by blast
next
  assume "\<exists>i<unat len. x = a + word_of_nat i"
  then obtain i where i: "i < unat len" "x = a + word_of_nat i" by blast
  have "unat (word_of_nat i :: 64 word) \<le> i" by (simp add: unat_of_nat)
  with i show "in_range a len x" by (simp add: in_range_def word_less_nat_alt)
qed

lemma in_range_offset:
  "i < 2 ^ 64 \<Longrightarrow> in_range p n (p + word_of_nat i) \<longleftrightarrow> i < unat n"
  by (simp add: in_range_def word_less_nat_alt unat_of_nat)

lemma range_mapped_iff:
  "range_mapped vm a len \<longleftrightarrow>
     unat a + unat len \<le> 2 ^ 64 \<and> (\<forall>x. in_range a len x \<longrightarrow> vm x \<noteq> None)"
proof -
  have "list_all (\<lambda>i. vm (a + word_of_nat i) \<noteq> None) [0..<unat len] \<longleftrightarrow>
      (\<forall>i<unat len. vm (a + word_of_nat i) \<noteq> None)"
    by (auto simp: list_all_iff)
  then show ?thesis
    unfolding range_mapped_def in_range_iff_offset by blast
qed

text \<open>Whole pages: rounding up, and a range inside its pages.\<close>

lemma page_ceil_ge: "n \<le> page_ceil P n"
proof (cases P)
  case 0
  then show ?thesis by (simp add: page_ceil_def)
next
  case (Suc q)
  have e: "(n + q) div Suc q * Suc q + (n + q) mod Suc q = n + q"
    by (rule div_mult_mod_eq)
  have "(n + q) mod Suc q < Suc q" by (rule mod_less_divisor) simp
  with e have "n \<le> (n + q) div Suc q * Suc q" by linarith
  then show ?thesis using Suc by (simp add: page_ceil_def)
qed

lemma page_ceil_multiple: "P dvd n \<Longrightarrow> page_ceil P n = n"
proof (cases P)
  case 0
  then show ?thesis by (simp add: page_ceil_def)
next
  case (Suc q)
  assume "P dvd n"
  then obtain m where n: "n = Suc q * m" using Suc by (auto elim: dvdE)
  have "(q + Suc q * m) div Suc q = m + q div Suc q"
    by (rule div_mult_self2) simp
  then have "(Suc q * m + q) div Suc q = m"
    by (simp only: add.commute [of "Suc q * m" q] div_less [of q "Suc q"] lessI add_0_right)
  then show ?thesis using Suc n by (simp add: page_ceil_def)
qed


lemma in_range_in_pages:
  assumes "in_range a len x"
  shows "in_pages pageSize a len x"
proof -
  from assms have lt: "unat (x - a) < unat len"
    by (simp add: in_range_def word_less_nat_alt)
  then have nz: "len \<noteq> 0" by (auto simp: unat_eq_0)
  have d: "x - page_floor pageSize a = (x - a) + a mod pageSize"
    by (simp add: page_floor_def)
  have "unat (x - page_floor pageSize a) \<le> unat (x - a) + unat (a mod pageSize)"
    unfolding d by (rule unat_add_le64)
  also have "\<dots> < unat (a mod pageSize) + unat len" using lt by simp
  also have "\<dots> \<le> page_ceil (unat pageSize) (unat (a mod pageSize) + unat len)"
    by (rule page_ceil_ge)
  finally show ?thesis using nz by (simp add: in_pages_def)
qed

lemma in_pages_aligned:
  assumes "a mod pageSize = 0" and "len mod pageSize = 0"
  shows "in_pages pageSize a len x \<longleftrightarrow> in_range a len x"
proof -
  have "unat len mod unat pageSize = 0"
    using assms(2) by (simp add: unat_mod [symmetric])
  then have "unat pageSize dvd unat len" by (simp add: dvd_eq_mod_eq_0)
  then have "page_ceil (unat pageSize) (unat len) = unat len"
    by (rule page_ceil_multiple)
  then show ?thesis
    using assms(1) by (auto simp: in_pages_def page_floor_def in_range_def word_less_nat_alt)
qed

text \<open>
  When \<open>sz + 2 * pageSize\<close> does not wrap, the \<open>sz\<close> bytes one page above \<open>b\<close> lie
  inside the \<open>sz + 2 * pageSize\<close> bytes from \<open>b\<close>, and the page below them and the page
  above them lie inside too and are disjoint from them.
\<close>

lemma middle_in_region:
  assumes nw: "unat (sz :: 64 word) + 2 * unat pageSize < 2 ^ 64"
    and x: "in_range (b + pageSize) sz x"
  shows "in_range b (sz + pageSize * 2) x"
proof -
  have L: "unat (sz + pageSize * 2) = unat sz + 2 * unat pageSize"
    using nw by (simp add: unat_word_ariths mod_simps mult.commute)
  have d: "(x - (b + pageSize)) + pageSize = x - b" by simp
  from x have lt: "unat (x - (b + pageSize)) < unat sz"
    by (simp add: in_range_def word_less_nat_alt)
  have "unat (x - b) \<le> unat (x - (b + pageSize)) + unat pageSize"
    using unat_add_le64 [of "x - (b + pageSize)" pageSize] by (simp only: d)
  with lt L show ?thesis
    by (simp add: in_range_def word_less_nat_alt)
qed

lemma guards_in_region:
  assumes nw: "unat (sz :: 64 word) + 2 * unat pageSize < 2 ^ 64"
    and x: "in_range b pageSize x \<or> in_range (b + pageSize + sz) pageSize x"
  shows "\<not> in_range (b + pageSize) sz x \<and> in_range b (sz + pageSize * 2) x"
proof -
  have L: "unat (sz + pageSize * 2) = unat sz + 2 * unat pageSize"
    using nw by (simp add: unat_word_ariths mod_simps mult.commute)
  from x show ?thesis
  proof
    assume "in_range b pageSize x"
    then have lt: "unat (x - b) < unat pageSize"
      by (simp add: in_range_def word_less_nat_alt)
    have d: "x - (b + pageSize) = (x - b) - pageSize" by simp
    have "unat (x - (b + pageSize)) = unat (x - b) + 2 ^ 64 - unat pageSize"
      using lt unfolding d by (simp add: unat_sub_if_size word_size)
    moreover have "unat pageSize < 2 ^ 64" using unsigned_less [of pageSize] by simp
    ultimately show ?thesis using L lt nw
      by (simp add: in_range_def word_less_nat_alt)
  next
    assume "in_range (b + pageSize + sz) pageSize x"
    then have lt: "unat (x - (b + pageSize + sz)) < unat pageSize"
      by (simp add: in_range_def word_less_nat_alt)
    have d1: "(x - (b + pageSize + sz)) + sz = x - (b + pageSize)" by simp
    have d2: "(x - (b + pageSize + sz)) + (sz + pageSize) = x - b" by simp
    have s: "unat (sz + pageSize) = unat sz + unat pageSize"
      using nw by (simp add: unat_word_ariths)
    have "unat (x - (b + pageSize)) = unat (x - (b + pageSize + sz)) + unat sz"
      using nw lt unat_add_lem [of "x - (b + pageSize + sz)" sz] by (simp only: d1) simp
    moreover have "unat (x - b) = unat (x - (b + pageSize + sz)) + unat (sz + pageSize)"
      using nw lt s unat_add_lem [of "x - (b + pageSize + sz)" "sz + pageSize"]
      by (simp only: d2) simp
    ultimately show ?thesis using L s lt
      by (simp add: in_range_def word_less_nat_alt)
  qed
qed

text \<open>
  \<^verbatim>\<open>mprotect\<close> accepted the range one page above \<open>b\<close>, \<^verbatim>\<open>mmap\<close> accepted the length,
  and \<open>b\<close> is an address the kernel hands out (not in the zero page, a whole page below
  the top of the address space): then \<open>sz + 2 * pageSize\<close> did not wrap.
\<close>

lemma no_wrap_of_range_mapped:
  assumes m: "unat (b + pageSize) + unat sz \<le> 2 ^ 64"
    and nz: "sz + pageSize * 2 \<noteq> 0"
    and k: "pageSize \<le> b" "unat b + unat pageSize < 2 ^ 64"
  shows "unat (sz :: 64 word) + 2 * unat pageSize < 2 ^ 64"
proof -
  have bp: "unat (b + pageSize) = unat b + unat pageSize"
    using k(2) by (simp add: unat_add_lem [THEN iffD1])
  have le: "unat pageSize \<le> unat b" using k(1) by (simp add: word_le_nat_alt)
  have "unat sz + 2 * unat pageSize \<le> 2 ^ 64" using m bp le by simp
  moreover have "unat sz + 2 * unat pageSize \<noteq> 2 ^ 64"
  proof
    assume e: "unat sz + 2 * unat pageSize = 2 ^ 64"
    have "unat (sz + pageSize * 2) = (unat sz + unat pageSize * 2) mod 2 ^ 64"
      by (simp add: unat_word_ariths mod_simps)
    with e have "unat (sz + pageSize * 2) = 0" by (simp add: mult.commute)
    then show False using nz by (simp add: unat_eq_0)
  qed
  ultimately show ?thesis by simp
qed


section \<open>The guarded arena\<close>

text \<open>The three ways through \<^verbatim>\<open>mmap_impl\<close>.\<close>

lemma mmap_impl_cases:
  "mmap_impl pageSize k sz vm =
     (if sz + pageSize * 2 = 0 \<or> mmap_ret k = MAP_FAILED then (MAP_FAILED, vm)
      else if mprotect_ret k \<noteq> 0 \<or>
              \<not> range_mapped (snd (sys_mmap pageSize k (sz + pageSize * 2) PROT_NONE vm))
                   (mmap_ret k + pageSize) sz
        then (MAP_FAILED,
              \<lambda>x. if in_pages pageSize (mmap_ret k) (sz + pageSize * 2) x then None else vm x)
      else (mmap_ret k + pageSize,
            \<lambda>x. if in_pages pageSize (mmap_ret k + pageSize) sz x then Some PROT_READ_WRITE
                 else if in_pages pageSize (mmap_ret k) (sz + pageSize * 2) x then Some PROT_NONE
                 else vm x))"
  by (auto simp: mmap_impl_def sys_mmap_def sys_mprotect_def sys_munmap_def Let_def fun_eq_iff)

text \<open>The success path is taken whenever the kernel grants both calls.\<close>

lemma mmap_impl_succeeds:
  assumes k: "mmap_ret k \<noteq> MAP_FAILED" "mprotect_ret k = 0"
    and nw: "unat sz + 2 * unat pageSize < 2 ^ 64"
    and nz: "sz + pageSize * 2 \<noteq> 0"
    and top: "unat (mmap_ret k) + unat pageSize + unat sz \<le> 2 ^ 64"
  shows "fst (mmap_impl pageSize k sz vm) = mmap_ret k + pageSize"
proof -
  have "unat (mmap_ret k + pageSize) + unat sz \<le> 2 ^ 64"
    using top unat_add_le64 [of "mmap_ret k" pageSize] by simp
  moreover have "\<forall>x. in_range (mmap_ret k + pageSize) sz x \<longrightarrow>
      in_pages pageSize (mmap_ret k) (sz + pageSize * 2) x"
    by (intro allI impI in_range_in_pages middle_in_region [OF nw])
  ultimately have "range_mapped (snd (sys_mmap pageSize k (sz + pageSize * 2) PROT_NONE vm))
      (mmap_ret k + pageSize) sz"
    using k nz by (auto simp: range_mapped_iff sys_mmap_def)
  then show ?thesis using k nz by (simp add: mmap_impl_cases)
qed

text \<open>
  Claim C3, as stated, fails for a size that is not a multiple of the page size:
  \<^verbatim>\<open>mmap_impl(100)\<close> with pages of 4096 bytes succeeds and returns \<open>0x11000\<close>, and the byte
  at \<open>0x11000 + 100\<close>, the first one after the 100 bytes requested, is readable and
  writable. The usable region is a whole page, and the reservation is made of 12288
  bytes, not of 8292.
\<close>

theorem mmap_impl_reserves_counterexample:
  "fst (mmap_impl 4096 \<lparr>mmap_ret = 0x10000, mprotect_ret = 0\<rparr> 100 Map.empty) = 0x11000 \<and>
   snd (mmap_impl 4096 \<lparr>mmap_ret = 0x10000, mprotect_ret = 0\<rparr> 100 Map.empty) 0x11064
     = Some PROT_READ_WRITE \<and>
   snd (mmap_impl 4096 \<lparr>mmap_ret = 0x10000, mprotect_ret = 0\<rparr> 100 Map.empty) 0x11FFF
     = Some PROT_READ_WRITE \<and>
   snd (mmap_impl 4096 \<lparr>mmap_ret = 0x10000, mprotect_ret = 0\<rparr> 100 Map.empty) 0x12FFF
     = Some PROT_NONE"
proof -
  let ?k = "\<lparr>mmap_ret = 0x10000, mprotect_ret = 0\<rparr>"
  have p: "fst (mmap_impl 4096 ?k 100 Map.empty) = 0x11000"
    using mmap_impl_succeeds [of ?k 100 4096 Map.empty] by (simp add: MAP_FAILED_def)
  then have ok: "mmap_impl 4096 ?k 100 Map.empty =
      (0x11000,
       \<lambda>x. if in_pages 4096 0x11000 100 x then Some PROT_READ_WRITE
            else if in_pages 4096 0x10000 8292 x then Some PROT_NONE
            else None)"
    by (simp add: mmap_impl_cases MAP_FAILED_def split: if_splits cong del: if_weak_cong)
  show ?thesis
    by (simp add: ok in_pages_def page_floor_def page_ceil_def)
qed

text \<open>
  Claim C3, amended. A successful \<^verbatim>\<open>mmap_impl(sz)\<close> returns the address one page above the
  base the kernel chose. The pages of the \<open>sz + 2 * pageSize\<close> bytes from that base are
  mapped; among them the pages holding the \<open>sz\<close> bytes from the returned address on are
  readable and writable and all the others are \<^verbatim>\<open>PROT_NONE\<close>; the rest of the address
  space is as it was. When \<open>sz\<close> is a multiple of the page size and the base is an address
  the kernel hands out (a multiple of the page size, not in the zero page, a whole page
  below the top of the address space), the length \<open>sz + 2 * pageSize\<close> has not wrapped,
  exactly the \<open>sz + 2 * pageSize\<close> bytes from the base are mapped, exactly the \<open>sz\<close> bytes
  from the returned address on are readable and writable, and the page below the usable
  region and the page above it are both inaccessible: the usable region is the requested
  size, not rounded up.
\<close>

theorem mmap_impl_reserves:
  assumes "mmap_impl pageSize k sz vm = (p, vm')" and "p \<noteq> MAP_FAILED"
  shows "p = mmap_ret k + pageSize \<and>
     (\<forall>x. vm' x = (if in_pages pageSize p sz x then Some PROT_READ_WRITE
                    else if in_pages pageSize (mmap_ret k) (sz + pageSize * 2) x
                      then Some PROT_NONE
                    else vm x)) \<and>
     (sz mod pageSize = 0 \<and> mmap_ret k mod pageSize = 0 \<and>
      pageSize \<le> mmap_ret k \<and> unat (mmap_ret k) + unat pageSize < 2 ^ 64 \<longrightarrow>
        unat sz + 2 * unat pageSize < 2 ^ 64 \<and>
        (\<forall>x. vm' x = (if in_range p sz x then Some PROT_READ_WRITE
                       else if in_range (mmap_ret k) (sz + pageSize * 2) x then Some PROT_NONE
                       else vm x)) \<and>
        (\<forall>x. in_range (mmap_ret k) pageSize x \<or> in_range (p + sz) pageSize x \<longrightarrow>
               vm' x = Some PROT_NONE))"
proof -
  let ?L = "sz + pageSize * 2"
  let ?b = "mmap_ret k"
  from assms have ok: "?L \<noteq> 0" "?b \<noteq> MAP_FAILED" "mprotect_ret k = 0"
    "range_mapped (snd (sys_mmap pageSize k ?L PROT_NONE vm)) (?b + pageSize) sz"
    by (auto simp: mmap_impl_cases split: if_splits)
  from assms ok have p: "p = ?b + pageSize"
    and vm': "vm' = (\<lambda>x. if in_pages pageSize (?b + pageSize) sz x then Some PROT_READ_WRITE
                 else if in_pages pageSize ?b ?L x then Some PROT_NONE else vm x)"
    by (auto simp: mmap_impl_cases)
  have char: "\<forall>x. vm' x = (if in_pages pageSize p sz x then Some PROT_READ_WRITE
                    else if in_pages pageSize ?b ?L x then Some PROT_NONE else vm x)"
    by (simp add: p vm')
  have exact: "sz mod pageSize = 0 \<and> ?b mod pageSize = 0 \<and>
      pageSize \<le> ?b \<and> unat ?b + unat pageSize < 2 ^ 64 \<longrightarrow>
        unat sz + 2 * unat pageSize < 2 ^ 64 \<and>
        (\<forall>x. vm' x = (if in_range p sz x then Some PROT_READ_WRITE
                       else if in_range ?b ?L x then Some PROT_NONE else vm x)) \<and>
        (\<forall>x. in_range ?b pageSize x \<or> in_range (p + sz) pageSize x \<longrightarrow> vm' x = Some PROT_NONE)"
  proof (intro impI, elim conjE)
    assume al: "sz mod pageSize = 0" "?b mod pageSize = 0"
      and kk: "pageSize \<le> ?b" "unat ?b + unat pageSize < 2 ^ 64"
    from ok(4) have "unat (?b + pageSize) + unat sz \<le> 2 ^ 64"
      by (simp add: range_mapped_def)
    then have nw: "unat sz + 2 * unat pageSize < 2 ^ 64"
      using ok(1) kk by (rule no_wrap_of_range_mapped)
    have L: "unat ?L = unat sz + 2 * unat pageSize"
      using nw by (simp add: unat_word_ariths mod_simps mult.commute)
    have bp: "unat (?b + pageSize) = unat ?b + unat pageSize"
      using kk(2) by (simp add: unat_add_lem [THEN iffD1])
    have "unat ((?b + pageSize) mod pageSize) = 0"
      using al(2) by (simp add: unat_mod bp unat_eq_0 [symmetric] del: unat_eq_0)
    then have pa: "(?b + pageSize) mod pageSize = 0" by (simp add: unat_eq_0)
    have "unat (?L mod pageSize) = 0"
      using al(1) by (simp add: unat_mod L unat_eq_0 [symmetric] del: unat_eq_0)
    then have La: "?L mod pageSize = 0" by (simp add: unat_eq_0)
    have mid: "\<forall>x. in_pages pageSize (?b + pageSize) sz x \<longleftrightarrow> in_range (?b + pageSize) sz x"
      using pa al(1) by (simp add: in_pages_aligned)
    have reg: "\<forall>x. in_pages pageSize ?b ?L x \<longleftrightarrow> in_range ?b ?L x"
      using al(2) La by (simp add: in_pages_aligned)
    have bytes: "\<forall>x. vm' x = (if in_range p sz x then Some PROT_READ_WRITE
                       else if in_range ?b ?L x then Some PROT_NONE else vm x)"
      by (simp add: p vm' mid reg)
    have "\<forall>x. in_range ?b pageSize x \<or> in_range (p + sz) pageSize x \<longrightarrow> vm' x = Some PROT_NONE"
      using guards_in_region [OF nw, of ?b] bytes by (auto simp: p)
    with nw bytes show "unat sz + 2 * unat pageSize < 2 ^ 64 \<and>
        (\<forall>x. vm' x = (if in_range p sz x then Some PROT_READ_WRITE
                       else if in_range ?b ?L x then Some PROT_NONE else vm x)) \<and>
        (\<forall>x. in_range ?b pageSize x \<or> in_range (p + sz) pageSize x \<longrightarrow> vm' x = Some PROT_NONE)"
      by blast
  qed
  from p char exact show ?thesis by blast
qed

theorem mmap_impl_reserves_witness:
  "fst (mmap_impl 4096 \<lparr>mmap_ret = 0x10000, mprotect_ret = 0\<rparr> 8192 Map.empty) = 0x11000 \<and>
   snd (mmap_impl 4096 \<lparr>mmap_ret = 0x10000, mprotect_ret = 0\<rparr> 8192 Map.empty) 0x11000
     = Some PROT_READ_WRITE \<and>
   snd (mmap_impl 4096 \<lparr>mmap_ret = 0x10000, mprotect_ret = 0\<rparr> 8192 Map.empty) 0x12FFF
     = Some PROT_READ_WRITE \<and>
   snd (mmap_impl 4096 \<lparr>mmap_ret = 0x10000, mprotect_ret = 0\<rparr> 8192 Map.empty) 0x10FFF
     = Some PROT_NONE \<and>
   snd (mmap_impl 4096 \<lparr>mmap_ret = 0x10000, mprotect_ret = 0\<rparr> 8192 Map.empty) 0x13000
     = Some PROT_NONE \<and>
   snd (mmap_impl 4096 \<lparr>mmap_ret = 0x10000, mprotect_ret = 0\<rparr> 8192 Map.empty) 0x14000
     = None"
proof -
  let ?k = "\<lparr>mmap_ret = 0x10000, mprotect_ret = 0\<rparr>"
  have p: "fst (mmap_impl 4096 ?k 8192 Map.empty) = 0x11000"
    using mmap_impl_succeeds [of ?k 8192 4096 Map.empty] by (simp add: MAP_FAILED_def)
  then have ok: "fst (mmap_impl 4096 ?k 8192 Map.empty) \<noteq> MAP_FAILED"
    by (simp add: MAP_FAILED_def)
  note r = mmap_impl_reserves [OF prod.collapse [symmetric] ok]
  have "\<forall>x. snd (mmap_impl 4096 ?k 8192 Map.empty) x =
      (if in_range (fst (mmap_impl 4096 ?k 8192 Map.empty)) 8192 x then Some PROT_READ_WRITE
       else if in_range 0x10000 (8192 + 4096 * 2) x then Some PROT_NONE
       else None)"
    using r [THEN conjunct2, THEN conjunct2] by simp
  then show ?thesis
    using p by (simp add: in_range_def)
qed

text \<open>
  Claim C4. When the initial \<^verbatim>\<open>mmap\<close> fails, \<^verbatim>\<open>mmap_impl\<close> returns \<^verbatim>\<open>MAP_FAILED\<close> and the
  address space is untouched. When \<^verbatim>\<open>mmap\<close> succeeds and \<^verbatim>\<open>mprotect\<close> on the inner
  region fails, it returns \<^verbatim>\<open>MAP_FAILED\<close> and every page of the reservation, both
  guard pages included, is unmapped again, everything else being as before: where the
  pages of the region were free before the call, the address space is the one before the
  call.
\<close>

theorem mmap_impl_failure_atomic:
  "(fst (sys_mmap pageSize k (sz + pageSize * 2) PROT_NONE vm) = MAP_FAILED \<longrightarrow>
      mmap_impl pageSize k sz vm = (MAP_FAILED, vm)) \<and>
   (fst (sys_mmap pageSize k (sz + pageSize * 2) PROT_NONE vm) \<noteq> MAP_FAILED \<and>
    fst (sys_mprotect pageSize k (mmap_ret k + pageSize) sz PROT_READ_WRITE
           (snd (sys_mmap pageSize k (sz + pageSize * 2) PROT_NONE vm))) \<noteq> 0 \<longrightarrow>
      fst (mmap_impl pageSize k sz vm) = MAP_FAILED \<and>
      (\<forall>x. snd (mmap_impl pageSize k sz vm) x =
             (if in_pages pageSize (mmap_ret k) (sz + pageSize * 2) x then None else vm x)) \<and>
      (\<forall>x. in_range (mmap_ret k) (sz + pageSize * 2) x \<longrightarrow>
             snd (mmap_impl pageSize k sz vm) x = None) \<and>
      ((\<forall>x. in_pages pageSize (mmap_ret k) (sz + pageSize * 2) x \<longrightarrow> vm x = None) \<longrightarrow>
         snd (mmap_impl pageSize k sz vm) = vm))"
  using in_range_in_pages [of "mmap_ret k" "sz + pageSize * 2" _ pageSize]
  by (auto simp: mmap_impl_cases sys_mmap_def sys_mprotect_def fun_eq_iff split: if_splits)

theorem mmap_impl_failure_atomic_witness:
  "mmap_impl 4096 \<lparr>mmap_ret = MAP_FAILED, mprotect_ret = 0\<rparr> 100 Map.empty
     = (MAP_FAILED, Map.empty) \<and>
   mmap_impl 4096 \<lparr>mmap_ret = 0x10000, mprotect_ret = - 1\<rparr> 100 Map.empty
     = (MAP_FAILED, Map.empty)"
  using mmap_impl_failure_atomic
      [of 4096 "\<lparr>mmap_ret = MAP_FAILED, mprotect_ret = 0\<rparr>" 100 Map.empty]
    mmap_impl_failure_atomic
      [of 4096 "\<lparr>mmap_ret = 0x10000, mprotect_ret = - 1\<rparr>" 100 Map.empty]
  by (simp add: sys_mmap_def sys_mprotect_def MAP_FAILED_def prod_eq_iff)



section \<open>The size header\<close>

lemma ROUND8_sizeof_size_t: "ROUND8 sizeof_size_t = 8"
  by (simp add: ROUND8_def sizeof_size_t_def)

lemma upt_8: "[0..<8] = [0, 1, 2, 3, 4, 5, 6, 7 :: nat]"
  by (simp add: upt_rec)

lemma length_le_bytes: "length (le_bytes n v) = n"
  by (induction n arbitrary: v) simp_all

lemma le_word_le_bytes: "le_word (le_bytes n v) = take_bit (8 * n) v"
proof (induction n arbitrary: v)
  case 0
  show ?case by simp
next
  case (Suc n)
  have "ucast (ucast v :: byte) OR push_bit 8 (take_bit (8 * n) (drop_bit 8 v))
      = take_bit (8 * Suc n) v"
    by (rule bit_word_eqI) (auto simp: bit_simps)
  then show ?case by (simp add: Suc)
qed

lemma le_word_le_bytes_8: "le_word (le_bytes 8 v) = v"
  by (simp add: le_word_le_bytes take_bit_word_eq_self)

text \<open>A \<^verbatim>\<open>size_t\<close> stored through a pointer is the one loaded through it.\<close>

lemma load_after_store:
  assumes "store_size_t p v s = Inr s1"
  shows "load_size_t p s1 = Inr (v, s1\<lparr>accesses := accesses s1 @ [Load p]\<rparr>)"
proof -
  from assms have p: "p \<noteq> 0"
    and b: "bytes s1 = (\<lambda>x. if in_range p sizeof_size_t x
                                 then le_bytes 8 v ! unat (x - p) else bytes s x)"
    by (auto simp: store_size_t_def split: if_splits)
  have "map (\<lambda>i. bytes s1 (p + word_of_nat i)) [0..<8] = map (\<lambda>i. le_bytes 8 v ! i) [0..<8]"
  proof (rule map_cong [OF refl])
    fix i :: nat
    assume "i \<in> set [0..<8]"
    then have i: "i < 8" by simp
    then have "in_range p sizeof_size_t (p + word_of_nat i)"
      by (simp add: in_range_offset sizeof_size_t_def)
    moreover have "unat (word_of_nat i :: 64 word) = i"
      using i by (simp add: unat_of_nat)
    ultimately show "bytes s1 (p + word_of_nat i) = le_bytes 8 v ! i"
      by (simp add: b)
  qed
  also have "\<dots> = le_bytes 8 v"
    using map_nth [of "le_bytes 8 v"] by (simp only: length_le_bytes)
  finally show ?thesis
    using p by (simp add: load_size_t_def le_word_le_bytes_8)
qed

text \<open>The conversion of the stored \<^verbatim>\<open>size_t\<close> to \<^verbatim>\<open>int\<close>.\<close>

lemma sint_ucast_fits:
  assumes "uint (v :: 64 word) \<le> 2147483647"
  shows "sint (ucast v :: 32 word) = uint v"
proof -
  have "uint (ucast v :: 32 word) = take_bit 32 (uint v)"
    by (simp add: unsigned_ucast_eq)
  also have "\<dots> = uint v"
    using assms by (simp add: take_bit_int_eq_self)
  finally have u: "uint (ucast v :: 32 word) = uint v" .
  have "sint (ucast v :: 32 word) = signed_take_bit 31 (uint v)"
    by (simp add: sint_uint u)
  also have "\<dots> = uint v"
  proof (rule signed_take_bit_int_eq_self)
    show "- (2 ^ 31) \<le> uint v" by (rule order_trans [of _ 0]) simp_all
    show "uint v < 2 ^ 31" using assms by simp
  qed
  finally show ?thesis .
qed

lemma sint_ucast_exceeds:
  assumes "2147483647 < uint (v :: 64 word)"
  shows "sint (ucast v :: 32 word) \<noteq> uint v"
proof -
  have "sint (ucast v :: 32 word) < 2 ^ 31"
    using sint_lt [of "ucast v :: 32 word"] by simp
  with assms show ?thesis by simp
qed

section \<open>The public interface\<close>

lemma pcache_malloc_Inr:
  "pcache_malloc ops sz s = Inr (p, s') \<longleftrightarrow>
     fst (mspace_malloc ops (pcache_msp s) (sz + 8)) \<noteq> 0 \<and>
     p = fst (mspace_malloc ops (pcache_msp s) (sz + 8)) + 8 \<and>
     store_size_t (fst (mspace_malloc ops (pcache_msp s) (sz + 8))) (sz + 8)
       (s\<lparr>pcache_msp := snd (mspace_malloc ops (pcache_msp s) (sz + 8))\<rparr>) = Inr s'"
  by (cases "mspace_malloc ops (pcache_msp s) (sz + 8)")
    (auto simp: pcache_malloc_def ROUND8_sizeof_size_t store_size_t_def)

text \<open>
  There is no test of the pointer \<^verbatim>\<open>mspace_malloc\<close> or \<^verbatim>\<open>mspace_calloc\<close> answers: the
  header is written through it whatever it is.
\<close>

lemma pcache_malloc_null:
  "fst (mspace_malloc ops (pcache_msp s) (sz + 8)) = 0 \<Longrightarrow>
   pcache_malloc ops sz s = Inl NullDereference"
  by (cases "mspace_malloc ops (pcache_msp s) (sz + 8)")
    (auto simp: pcache_malloc_def ROUND8_sizeof_size_t store_size_t_def)

lemma pcache_malloc_zero_null:
  "fst (mspace_calloc ops (sz + 8) 1 s) = 0 \<Longrightarrow>
   pcache_malloc_zero ops sz s = Inl NullDereference"
  by (cases "mspace_calloc ops (sz + 8) 1 s")
    (auto simp: pcache_malloc_zero_def ROUND8_sizeof_size_t store_size_t_def)

lemma pcache_malloc_zero_Inr:
  "pcache_malloc_zero ops sz s = Inr (p, s') \<longleftrightarrow>
     fst (mspace_calloc ops (sz + 8) 1 s) \<noteq> 0 \<and>
     p = fst (mspace_calloc ops (sz + 8) 1 s) + 8 \<and>
     store_size_t (fst (mspace_calloc ops (sz + 8) 1 s)) (sz + 8)
       (snd (mspace_calloc ops (sz + 8) 1 s)) = Inr s'"
  by (cases "mspace_calloc ops (sz + 8) 1 s")
    (auto simp: pcache_malloc_zero_def ROUND8_sizeof_size_t store_size_t_def)

lemma mspace_calloc_zeroed:
  "fst (mspace_calloc ops n 1 s) \<noteq> 0 \<Longrightarrow> in_range (fst (mspace_calloc ops n 1 s)) n x \<Longrightarrow>
   bytes (snd (mspace_calloc ops n 1 s)) x = 0"
  by (cases "mspace_malloc ops (pcache_msp s) n")
    (auto simp: mspace_calloc_def memset_def split: if_splits)

lemma pcache_memsize_load:
  "p \<noteq> 0 \<Longrightarrow> load_size_t (p - 8) s = Inr (v, s') \<Longrightarrow>
   pcache_memsize p s = Inr (sint (ucast v :: 32 word), s')"
  by (simp add: pcache_memsize_def ROUND8_sizeof_size_t)

lemma memsize_after_malloc_eq:
  assumes "pcache_malloc ops sz s = Inr (p, s')" and "p \<noteq> 0"
  shows "memsize_after_malloc ops sz s = Inr (sint (ucast (sz + 8) :: 32 word))"
proof -
  let ?base = "fst (mspace_malloc ops (pcache_msp s) (sz + 8))"
  let ?m = "snd (mspace_malloc ops (pcache_msp s) (sz + 8))"
  from assms have p: "p = ?base + 8"
    and st: "store_size_t ?base (sz + 8) (s\<lparr>pcache_msp := ?m\<rparr>) = Inr s'"
    by (simp_all add: pcache_malloc_Inr)
  have ld: "load_size_t (p - 8) s' = Inr (sz + 8, s'\<lparr>accesses := accesses s' @ [Load (p - 8)]\<rparr>)"
    using load_after_store [OF st] by (simp add: p)
  show ?thesis
    using pcache_memsize_load [OF assms(2) ld] by (simp add: memsize_after_malloc_def assms(1))
qed

text \<open>
  Claim C1 says that \<^verbatim>\<open>pcache_malloc\<close> and \<^verbatim>\<open>pcache_malloc_zero\<close> return the failure
  sentinel, without crashing, when the allocator space cannot satisfy the request. The
  code does not: an arena of 4096 bytes at \<open>0x10000\<close> from which three blocks of
  \<open>1024 + 8\<close> bytes have been handed out has \<open>1000\<close> bytes left, the underlying
  allocator answers the null pointer to the fourth request, and both entry points write
  the size header through that null pointer.
\<close>

theorem pcache_malloc_exhausted_faults:
  "pcache_malloc (bump_ops 0x11000) 1024 (fresh_state 0x10C18 0) = Inl NullDereference \<and>
   pcache_malloc_zero (bump_ops 0x11000) 1024 (fresh_state 0x10C18 0) = Inl NullDereference"
  by (simp add: pcache_malloc_def pcache_malloc_zero_def mspace_calloc_def bump_ops_def
      fresh_state_def ROUND8_sizeof_size_t store_size_t_def)

text \<open>
  Claim C2, as stated, fails: for \<open>sz = 2 ^ 31 - 8\<close> the allocation succeeds, the header
  holds \<open>2 ^ 31\<close>, and \<^verbatim>\<open>pcache_memsize\<close> returns \<open>- 2 ^ 31\<close>, so that the result minus
  the header size is not \<open>sz\<close>.
\<close>

theorem pcache_malloc_header_counterexample:
  "memsize_after_malloc (bump_ops 0x100000000) 0x7FFFFFF8 (fresh_state 0x10000 0)
     = Inr (- 2147483648) \<and>
   (- 2147483648 :: int) - 8 \<noteq> uint (0x7FFFFFF8 :: size_t)"
proof -
  obtain s1 where "pcache_malloc (bump_ops 0x100000000) 0x7FFFFFF8 (fresh_state 0x10000 0)
      = Inr (0x10008, s1)"
    by (simp add: pcache_malloc_def bump_ops_def fresh_state_def ROUND8_sizeof_size_t
        store_size_t_def)
  from memsize_after_malloc_eq [OF this] show ?thesis by simp
qed

text \<open>
  Claim C2, amended. The header size is \<^verbatim>\<open>ROUND8(sizeof(size_t))\<close>, that is 8. A
  successful \<^verbatim>\<open>pcache_malloc(sz)\<close> has asked the underlying allocator for \<open>sz + 8\<close> bytes
  and got a non-null base; it returns base \<open>+ 8\<close>, and the header slot at the base holds
  \<open>sz + 8\<close>. When the returned pointer is not null and \<open>sz + 8\<close> is at most \<^verbatim>\<open>INT_MAX\<close>,
  \<^verbatim>\<open>pcache_memsize\<close> of the returned pointer is \<open>sz + 8\<close>: minus the header size, it is
  \<open>sz\<close>.
\<close>

theorem pcache_malloc_header:
  assumes "pcache_malloc ops sz s = Inr (p, s')"
  shows "ROUND8 sizeof_size_t = 8 \<and>
     fst (mspace_malloc ops (pcache_msp s) (sz + 8)) \<noteq> 0 \<and>
     p = fst (mspace_malloc ops (pcache_msp s) (sz + 8)) + 8 \<and>
     pcache_msp s' = snd (mspace_malloc ops (pcache_msp s) (sz + 8)) \<and>
     load_size_t (p - 8) s' = Inr (sz + 8, s'\<lparr>accesses := accesses s' @ [Load (p - 8)]\<rparr>) \<and>
     (p \<noteq> 0 \<and> uint sz + 8 \<le> 2147483647 \<longrightarrow>
        pcache_memsize p s' = Inr (uint sz + 8, s'\<lparr>accesses := accesses s' @ [Load (p - 8)]\<rparr>))"
proof -
  let ?base = "fst (mspace_malloc ops (pcache_msp s) (sz + 8))"
  let ?m = "snd (mspace_malloc ops (pcache_msp s) (sz + 8))"
  from assms have base: "?base \<noteq> 0" and p: "p = ?base + 8"
    and st: "store_size_t ?base (sz + 8) (s\<lparr>pcache_msp := ?m\<rparr>) = Inr s'"
    by (simp_all add: pcache_malloc_Inr)
  from st have msp: "pcache_msp s' = ?m"
    by (auto simp: store_size_t_def split: if_splits)
  have ld: "load_size_t (p - 8) s' = Inr (sz + 8, s'\<lparr>accesses := accesses s' @ [Load (p - 8)]\<rparr>)"
    using load_after_store [OF st] by (simp add: p)
  have sz: "p \<noteq> 0 \<and> uint sz + 8 \<le> 2147483647 \<longrightarrow>
      pcache_memsize p s' = Inr (uint sz + 8, s'\<lparr>accesses := accesses s' @ [Load (p - 8)]\<rparr>)"
  proof (intro impI, elim conjE)
    assume nn: "p \<noteq> 0" and fits: "uint sz + 8 \<le> 2147483647"
    have "uint (sz + 8) = uint sz + 8"
      using fits by (simp add: uint_word_ariths)
    then have "sint (ucast (sz + 8) :: 32 word) = uint sz + 8"
      using fits sint_ucast_fits [of "sz + 8"] by simp
    then show "pcache_memsize p s'
        = Inr (uint sz + 8, s'\<lparr>accesses := accesses s' @ [Load (p - 8)]\<rparr>)"
      using pcache_memsize_load [OF nn ld] by simp
  qed
  from base p msp ld sz show ?thesis
    by (simp add: ROUND8_sizeof_size_t)
qed

theorem pcache_malloc_header_witness:
  "map_sum id fst (pcache_malloc (bump_ops 0x20000) 100 (fresh_state 0x10000 0)) = Inr 0x10008 \<and>
   memsize_after_malloc (bump_ops 0x20000) 100 (fresh_state 0x10000 0) = Inr 108"
proof -
  obtain s1 where m: "pcache_malloc (bump_ops 0x20000) 100 (fresh_state 0x10000 0)
      = Inr (0x10008, s1)"
    by (simp add: pcache_malloc_def bump_ops_def fresh_state_def ROUND8_sizeof_size_t
        store_size_t_def)
  have "pcache_memsize 0x10008 s1 = Inr (108, s1\<lparr>accesses := accesses s1 @ [Load 0x10000]\<rparr>)"
    using pcache_malloc_header [OF m] by simp
  with m show ?thesis by (simp add: memsize_after_malloc_def)
qed

text \<open>
  Claim C6, as stated, fails where \<open>sz + 8\<close> wraps: for \<open>sz = 2 ^ 64 - 8\<close> the underlying
  allocator is asked for 0 bytes, nothing is set to zero, and the first byte after the
  header still holds what it held before (\<open>0xAA\<close>).
\<close>

theorem pcache_malloc_zero_zeroed_counterexample:
  "byte_after_malloc_zero (bump_ops 0x20000) 0xFFFFFFFFFFFFFFF8 (fresh_state 0x10000 0xAA) 0
     = Inr 0xAA"
  by (simp add: byte_after_malloc_zero_def pcache_malloc_zero_def mspace_calloc_def memset_def
      bump_ops_def fresh_state_def ROUND8_def store_size_t_def in_range_def
      sizeof_size_t_def)

text \<open>
  Claim C6, amended. A successful \<^verbatim>\<open>pcache_malloc_zero(sz)\<close> has got from the underlying
  call a non-null block whose \<open>sz + 8\<close> bytes (in \<^verbatim>\<open>size_t\<close> arithmetic) are all zero,
  and then has written the size into the header slot at its base. When \<open>sz + 8\<close> does
  not exceed \<^verbatim>\<open>SIZE_MAX\<close>, each of the \<open>sz\<close> bytes from the returned pointer on reads
  zero.
\<close>

theorem pcache_malloc_zero_zeroed:
  assumes "pcache_malloc_zero ops sz s = Inr (p, s')"
  shows "fst (mspace_calloc ops (sz + 8) 1 s) \<noteq> 0 \<and>
     p = fst (mspace_calloc ops (sz + 8) 1 s) + 8 \<and>
     (\<forall>x. in_range (p - 8) (sz + 8) x \<longrightarrow> bytes (snd (mspace_calloc ops (sz + 8) 1 s)) x = 0) \<and>
     store_size_t (p - 8) (sz + 8) (snd (mspace_calloc ops (sz + 8) 1 s)) = Inr s' \<and>
     (unat sz + 8 < 2 ^ 64 \<longrightarrow> (\<forall>i<unat sz. bytes s' (p + word_of_nat i) = 0))"
proof -
  let ?base = "fst (mspace_calloc ops (sz + 8) 1 s)"
  let ?s1 = "snd (mspace_calloc ops (sz + 8) 1 s)"
  from assms have base: "?base \<noteq> 0" and p: "p = ?base + 8"
    and st: "store_size_t ?base (sz + 8) ?s1 = Inr s'"
    by (simp_all add: pcache_malloc_zero_Inr)
  have z: "\<forall>x. in_range (p - 8) (sz + 8) x \<longrightarrow> bytes ?s1 x = 0"
    using mspace_calloc_zeroed [OF base] by (simp add: p)
  have u: "unat sz + 8 < 2 ^ 64 \<longrightarrow> (\<forall>i<unat sz. bytes s' (p + word_of_nat i) = 0)"
  proof (intro allI impI)
    fix i
    assume nw: "unat sz + 8 < 2 ^ 64" and i: "i < unat sz"
    have s8: "unat (sz + 8) = unat sz + 8"
      using nw by (simp add: unat_word_ariths)
    have i8: "unat (8 + word_of_nat i :: 64 word) = 8 + i"
      using nw i by (simp add: unat_word_ariths unat_of_nat)
    have d: "p + word_of_nat i - ?base = 8 + word_of_nat i" by (simp add: p)
    have out: "\<not> in_range ?base sizeof_size_t (p + word_of_nat i)"
      by (simp add: in_range_def word_less_nat_alt d i8 sizeof_size_t_def)
    have inb: "in_range ?base (sz + 8) (p + word_of_nat i)"
      using i by (simp add: in_range_def word_less_nat_alt d i8 s8)
    from st out have "bytes s' (p + word_of_nat i) = bytes ?s1 (p + word_of_nat i)"
      by (auto simp: store_size_t_def split: if_splits)
    also have "\<dots> = 0" using mspace_calloc_zeroed [OF base inb] .
    finally show "bytes s' (p + word_of_nat i) = 0" .
  qed
  from base p z st u show ?thesis by (simp add: p)
qed

theorem pcache_malloc_zero_zeroed_witness:
  "byte_after_malloc_zero (bump_ops 0x20000) 16 (fresh_state 0x10000 0xAA) 0 = Inr 0 \<and>
   byte_after_malloc_zero (bump_ops 0x20000) 16 (fresh_state 0x10000 0xAA) 15 = Inr 0"
proof -
  obtain s1 where m: "pcache_malloc_zero (bump_ops 0x20000) 16 (fresh_state 0x10000 0xAA)
      = Inr (0x10008, s1)"
    by (simp add: pcache_malloc_zero_def mspace_calloc_def bump_ops_def fresh_state_def
        ROUND8_sizeof_size_t store_size_t_def)
  have z: "\<forall>i<16. bytes s1 (0x10008 + word_of_nat i) = 0"
    using pcache_malloc_zero_zeroed [OF m] by simp
  from z [rule_format, of 0] z [rule_format, of 15] m show ?thesis
    by (simp add: byte_after_malloc_zero_def)
qed

text \<open>
  Claim C7, as stated, fails: with the value \<open>2 ^ 31\<close> in the header at \<open>0x10000\<close>,
  \<^verbatim>\<open>pcache_memsize\<close> of the pointer \<open>0x10008\<close> is \<open>- 2 ^ 31\<close>, not the stored value.
\<close>

theorem pcache_memsize_spec_counterexample:
  "map_sum id fst (load_size_t 0x10000
      ((fresh_state 0 0)\<lparr>bytes := (bytes (fresh_state 0 0))(0x10003 := 0x80)\<rparr>))
     = Inr 0x80000000 \<and>
   map_sum id fst (pcache_memsize 0x10008
      ((fresh_state 0 0)\<lparr>bytes := (bytes (fresh_state 0 0))(0x10003 := 0x80)\<rparr>))
     = Inr (- 2147483648)"
  by (simp add: pcache_memsize_def load_size_t_def fresh_state_def ROUND8_sizeof_size_t upt_8)

text \<open>
  Claim C7, amended. \<^verbatim>\<open>pcache_memsize\<close> returns 0 for the null pointer. For any other
  pointer \<open>p\<close> it returns the value stored in the header at \<open>p - 8\<close> converted to \<^verbatim>\<open>int\<close>,
  with nothing subtracted for the header: the stored value itself whenever that value is
  at most \<^verbatim>\<open>INT_MAX\<close>.
\<close>

theorem pcache_memsize_spec:
  "pcache_memsize 0 s = Inr (0, s) \<and>
   (p \<noteq> 0 \<and> load_size_t (p - 8) s = Inr (v, s') \<longrightarrow>
      pcache_memsize p s = Inr (sint (ucast v :: 32 word), s') \<and>
      (uint v \<le> 2147483647 \<longrightarrow> pcache_memsize p s = Inr (uint v, s')))"
  using sint_ucast_fits [of v]
  by (auto simp: pcache_memsize_def ROUND8_sizeof_size_t)

theorem pcache_memsize_spec_witness:
  "pcache_memsize 0 (fresh_state 0 0) = Inr (0, fresh_state 0 0) \<and>
   map_sum id fst (pcache_memsize 0x10008
      ((fresh_state 0 0)\<lparr>bytes := (bytes (fresh_state 0 0))(0x10000 := 0x20)\<rparr>))
     = Inr 32"
proof -
  let ?s = "(fresh_state 0 0)\<lparr>bytes := (bytes (fresh_state 0 0))(0x10000 := 0x20)\<rparr>"
  have ld: "load_size_t (0x10008 - 8) ?s = Inr (32, ?s\<lparr>accesses := [Load 0x10000]\<rparr>)"
    by (simp add: load_size_t_def fresh_state_def upt_8)
  show ?thesis
    using pcache_memsize_spec [where s = ?s and p = "0x10008" and v = 32
        and s' = "?s\<lparr>accesses := [Load 0x10000]\<rparr>"]
      pcache_memsize_spec [where s = "fresh_state 0 0" and p = 0] ld
    by simp
qed

text \<open>
  Claim C8, as stated, fails: \<^verbatim>\<open>pcache_free\<close> of a pointer that \<^verbatim>\<open>pcache_malloc\<close> has just
  returned performs no load at all; the header is not read.
\<close>

theorem pcache_free_spec_counterexample:
  "accesses_of_free_after_malloc (bump_ops 0x20000) 16 (fresh_state 0x10000 0) = Inr []"
  by (simp add: accesses_of_free_after_malloc_def pcache_malloc_def pcache_free_def bump_ops_def
      fresh_state_def ROUND8_sizeof_size_t store_size_t_def)

text \<open>
  Claim C8, amended. \<^verbatim>\<open>pcache_free\<close> of the null pointer changes nothing. For a non-null
  pointer \<open>p\<close> that \<^verbatim>\<open>pcache_malloc\<close> or \<^verbatim>\<open>pcache_malloc_zero\<close> returned,
  \<^verbatim>\<open>pcache_free\<close> in any later state hands \<open>p - 8\<close>, the very base the underlying
  allocator had answered, to the underlying free, and does nothing else: no byte of
  memory changes and the header is not read.
\<close>

theorem pcache_free_spec:
  "pcache_free ops 0 s = s \<and>
   (pcache_malloc ops sz s0 = Inr (p, s1) \<and> p \<noteq> 0 \<longrightarrow>
      pcache_free ops p s =
        s\<lparr>pcache_msp := mspace_free ops (pcache_msp s)
                           (fst (mspace_malloc ops (pcache_msp s0) (sz + 8)))\<rparr> \<and>
      accesses (pcache_free ops p s) = accesses s \<and>
      bytes (pcache_free ops p s) = bytes s) \<and>
   (pcache_malloc_zero ops sz s0 = Inr (p, s1) \<and> p \<noteq> 0 \<longrightarrow>
      pcache_free ops p s =
        s\<lparr>pcache_msp := mspace_free ops (pcache_msp s)
                           (fst (mspace_calloc ops (sz + 8) 1 s0))\<rparr> \<and>
      accesses (pcache_free ops p s) = accesses s \<and>
      bytes (pcache_free ops p s) = bytes s)"
  by (auto simp: pcache_free_def ROUND8_sizeof_size_t pcache_malloc_Inr pcache_malloc_zero_Inr)

theorem pcache_free_spec_witness:
  "pcache_free (bump_ops 0x20000) 0 (fresh_state 0x10000 0) = fresh_state 0x10000 0 \<and>
   map_sum id fst (pcache_malloc (bump_ops 0x20000) 16 (fresh_state 0x10000 0)) = Inr 0x10008 \<and>
   map_sum id fst (pcache_malloc_zero (bump_ops 0x20000) 16 (fresh_state 0x10000 0)) = Inr 0x10008 \<and>
   pcache_msp (pcache_free (bump_ops 0x20000) 0x10008 (fresh_state 0x10018 0))
     = (0x10018, [0x10000])"
proof -
  obtain s1 where m: "pcache_malloc (bump_ops 0x20000) 16 (fresh_state 0x10000 0)
      = Inr (0x10008, s1)"
    by (simp add: pcache_malloc_def bump_ops_def fresh_state_def ROUND8_sizeof_size_t
        store_size_t_def)
  obtain s2 where z: "pcache_malloc_zero (bump_ops 0x20000) 16 (fresh_state 0x10000 0)
      = Inr (0x10008, s2)"
    by (simp add: pcache_malloc_zero_def mspace_calloc_def bump_ops_def fresh_state_def
        ROUND8_sizeof_size_t store_size_t_def)
  note f = pcache_free_spec [where ops = "bump_ops 0x20000" and sz = 16
      and ?s0.0 = "fresh_state 0x10000 0" and p = "0x10008"]
  have "pcache_free (bump_ops 0x20000) 0 (fresh_state 0x10000 0) = fresh_state 0x10000 0"
    by (rule f [THEN conjunct1])
  moreover have "pcache_msp (pcache_free (bump_ops 0x20000) 0x10008 (fresh_state 0x10018 0))
      = (0x10018, [0x10000])"
    using f [where s = "fresh_state 0x10018 0" and ?s1.0 = s1, THEN conjunct2, THEN conjunct1] m
    by (simp add: bump_ops_def fresh_state_def)
  moreover have "pcache_msp (pcache_free (bump_ops 0x20000) 0x10008 (fresh_state 0x10018 0))
      = (0x10018, [0x10000])"
    using f [where s = "fresh_state 0x10018 0" and ?s1.0 = s2, THEN conjunct2, THEN conjunct2] z
    by (simp add: mspace_calloc_def bump_ops_def fresh_state_def)
  ultimately show ?thesis using m z by simp
qed

text \<open>
  Claim C10. After a successful \<^verbatim>\<open>pcache_malloc(sz)\<close> with a non-null result,
  \<^verbatim>\<open>pcache_memsize\<close> returns the recorded \<^verbatim>\<open>size_t\<close> value \<open>sz + 8\<close> cast to \<^verbatim>\<open>int\<close>: it is
  the recorded size exactly when that size is at most \<^verbatim>\<open>INT_MAX\<close>, and for a recorded
  size above \<^verbatim>\<open>INT_MAX\<close> it is the value cut to 32 bits, which differs from the recorded
  size.
\<close>

theorem pcache_memsize_int_cast:
  assumes "pcache_malloc ops sz s = Inr (p, s')" and "p \<noteq> 0"
  shows "map_sum id fst (pcache_memsize p s') = Inr (sint (ucast (sz + 8) :: 32 word)) \<and>
     (uint (sz + 8) \<le> 2147483647 \<longrightarrow>
        map_sum id fst (pcache_memsize p s') = Inr (uint (sz + 8))) \<and>
     (2147483647 < uint (sz + 8) \<longrightarrow>
        map_sum id fst (pcache_memsize p s') \<noteq> Inr (uint (sz + 8)))"
proof -
  let ?base = "fst (mspace_malloc ops (pcache_msp s) (sz + 8))"
  let ?m = "snd (mspace_malloc ops (pcache_msp s) (sz + 8))"
  from assms have p: "p = ?base + 8"
    and st: "store_size_t ?base (sz + 8) (s\<lparr>pcache_msp := ?m\<rparr>) = Inr s'"
    by (simp_all add: pcache_malloc_Inr)
  have ld: "load_size_t (p - 8) s' = Inr (sz + 8, s'\<lparr>accesses := accesses s' @ [Load (p - 8)]\<rparr>)"
    using load_after_store [OF st] by (simp add: p)
  have r: "map_sum id fst (pcache_memsize p s') = Inr (sint (ucast (sz + 8) :: 32 word))"
    using pcache_memsize_load [OF assms(2) ld] by simp
  show ?thesis
    using r sint_ucast_fits [of "sz + 8"] sint_ucast_exceeds [of "sz + 8"] by simp
qed

theorem pcache_memsize_int_cast_witness:
  "memsize_after_malloc (bump_ops 0x20000) 24 (fresh_state 0x10000 0) = Inr 32 \<and>
   memsize_after_malloc (bump_ops 0x200000000) 0xFFFFFFF8 (fresh_state 0x10000 0) = Inr 0"
proof -
  obtain s1 where m1: "pcache_malloc (bump_ops 0x20000) 24 (fresh_state 0x10000 0)
      = Inr (0x10008, s1)"
    by (simp add: pcache_malloc_def bump_ops_def fresh_state_def ROUND8_sizeof_size_t
        store_size_t_def)
  obtain s2 where m2: "pcache_malloc (bump_ops 0x200000000) 0xFFFFFFF8 (fresh_state 0x10000 0)
      = Inr (0x10008, s2)"
    by (simp add: pcache_malloc_def bump_ops_def fresh_state_def ROUND8_sizeof_size_t
        store_size_t_def)
  have "map_sum id fst (pcache_memsize 0x10008 s1) = Inr 32"
    using pcache_memsize_int_cast [OF m1] by simp
  moreover have "map_sum id fst (pcache_memsize 0x10008 s2) = Inr 0"
    using pcache_memsize_int_cast [OF m2] by simp
  ultimately show ?thesis using m1 m2 by (simp add: memsize_after_malloc_def)
qed

end
